theory Spec2Isabelle
  imports Main
begin

section \<open>The environment of the callbacks\<close>

text \<open>
  The handlers and the teardown action are functions supplied by the caller. All the
  library does with one is to test whether it is there and to call it. A callback is
  modelled as a total function on the caller's environment. The environment is an
  extensible record: its one fixed field is the console, which the teardown action of
  \<^verbatim>\<open>Observable.from\<close> writes to; a caller adds the fields its own callbacks use.

  A callback does not hold the Observer it is registered with, so no callback re-enters
  the Observer while one of its methods runs, and a callback returns normally. What can
  go wrong in the library's own code is the call of a callback that is absent, which in
  JavaScript raises a \<^verbatim>\<open>TypeError\<close>: that is the error of the model.
\<close>

record environment =
  console :: "string list"

type_synonym 'z action = "'z environment_scheme \<Rightarrow> 'z environment_scheme"

definition console_log :: "string \<Rightarrow> 'z action" where
  "console_log msg w = w\<lparr>console := console w @ [msg]\<rparr>"

datatype error = TypeError

text \<open>The truthiness test \<^verbatim>\<open>if (f)\<close> of an optional function.\<close>

fun present :: "'f option \<Rightarrow> bool" where
  "present None = False"
| "present (Some f) = True"

text \<open>The calls \<^verbatim>\<open>f()\<close> and \<^verbatim>\<open>f(x)\<close> of an optional function.\<close>

fun call0 :: "('w \<Rightarrow> 'w) option \<Rightarrow> 'w \<Rightarrow> error + 'w" where
  "call0 None w = Inl TypeError"
| "call0 (Some f) w = Inr (f w)"

fun call1 :: "('x \<Rightarrow> 'w \<Rightarrow> 'w) option \<Rightarrow> 'x \<Rightarrow> 'w \<Rightarrow> error + 'w" where
  "call1 None x w = Inl TypeError"
| "call1 (Some f) x w = Inr (f x w)"

section \<open>Handler and Observer\<close>

text \<open>
  \<^verbatim>\<open>type Handler<T> = { next?: ..., error?: ..., complete?: ... }\<close>: \<open>'a\<close> is the type
  \<^verbatim>\<open>T\<close> of the values, \<open>'e\<close> the type of the error values.
\<close>

record ('a, 'e, 'z) Handler =
  "next" :: "('a \<Rightarrow> 'z action) option"
  error :: "('e \<Rightarrow> 'z action) option"
  complete :: "'z action option"

text \<open>
  The fields of \<^verbatim>\<open>class Observer<T>\<close>; \<open>field_unsubscribe\<close> is the source's
  \<^verbatim>\<open>_unsubscribe\<close>.
\<close>

record ('a, 'e, 'z) Observer =
  handlers :: "('a, 'e, 'z) Handler"
  isUnsubscribed :: bool
  field_unsubscribe :: "'z action option"

text \<open>The constructor: \<^verbatim>\<open>_unsubscribe\<close> is left undefined.\<close>

definition new_Observer :: "('a, 'e, 'z) Handler \<Rightarrow> ('a, 'e, 'z) Observer" where
  "new_Observer hs = \<lparr>handlers = hs, isUnsubscribed = False, field_unsubscribe = None\<rparr>"

text \<open>
  A method takes the object \<open>this\<close> and the environment, and returns both as it leaves
  them, or the error it raised.
\<close>

type_synonym ('a, 'e, 'z) Observer_method =
  "('a, 'e, 'z) Observer \<Rightarrow> 'z environment_scheme
     \<Rightarrow> error + ('a, 'e, 'z) Observer \<times> 'z environment_scheme"

definition Observer_unsubscribe :: "('a, 'e, 'z) Observer_method" where
  "Observer_unsubscribe this w =
     (let this1 = this\<lparr>isUnsubscribed := True\<rparr> in
      if present (field_unsubscribe this1)
      then (case call0 (field_unsubscribe this1) w of
              Inl x \<Rightarrow> Inl x
            | Inr w1 \<Rightarrow> Inr (this1, w1))
      else Inr (this1, w))"

definition Observer_next :: "'a \<Rightarrow> ('a, 'e, 'z) Observer_method" where
  "Observer_next v this w =
     (if present (next (handlers this)) \<and> \<not> isUnsubscribed this
      then (case call1 (next (handlers this)) v w of
              Inl x \<Rightarrow> Inl x
            | Inr w1 \<Rightarrow> Inr (this, w1))
      else Inr (this, w))"

definition Observer_error :: "'e \<Rightarrow> ('a, 'e, 'z) Observer_method" where
  "Observer_error err this w =
     (if \<not> isUnsubscribed this
      then (case (if present (error (handlers this))
                  then call1 (error (handlers this)) err w
                  else Inr w) of
              Inl x \<Rightarrow> Inl x
            | Inr w1 \<Rightarrow> Observer_unsubscribe this w1)
      else Inr (this, w))"

definition Observer_complete :: "('a, 'e, 'z) Observer_method" where
  "Observer_complete this w =
     (if \<not> isUnsubscribed this
      then (case (if present (complete (handlers this))
                  then call0 (complete (handlers this)) w
                  else Inr w) of
              Inl x \<Rightarrow> Inl x
            | Inr w1 \<Rightarrow> Observer_unsubscribe this w1)
      else Inr (this, w))"

text \<open>
  The calls a holder of an Observer can make on it, and a sequence of them made one
  after the other; a raised error ends the sequence.
\<close>

datatype ('a, 'e) operation = Next 'a | Error 'e | Complete | Unsubscribe

fun perform :: "('a, 'e) operation \<Rightarrow> ('a, 'e, 'z) Observer_method" where
  "perform (Next v) = Observer_next v"
| "perform (Error err) = Observer_error err"
| "perform Complete = Observer_complete"
| "perform Unsubscribe = Observer_unsubscribe"

fun perform_all :: "('a, 'e) operation list \<Rightarrow> ('a, 'e, 'z) Observer_method" where
  "perform_all [] this w = Inr (this, w)"
| "perform_all (x # xs) this w =
     (case perform x this w of
        Inl e \<Rightarrow> Inl e
      | Inr (this1, w1) \<Rightarrow> perform_all xs this1 w1)"

section \<open>The store of Observers\<close>

text \<open>
  Every \<^verbatim>\<open>subscribe\<close> makes an Observer of its own, and the producer and the returned
  handle hold a reference to it. The store maps an address to the object there;
  \<open>fresh\<close> is the first address not yet given out.
\<close>

record ('a, 'e, 'z) state =
  heap :: "nat \<Rightarrow> ('a, 'e, 'z) Observer"
  fresh :: nat
  env :: "'z environment_scheme"

text \<open>\<^verbatim>\<open>new Observer<T>(handlers)\<close>: the object is placed at the fresh address.\<close>

definition allocate :: "('a, 'e, 'z) Observer \<Rightarrow> ('a, 'e, 'z) state \<Rightarrow> nat \<times> ('a, 'e, 'z) state" where
  "allocate ob s = (fresh s, s\<lparr>heap := (heap s)(fresh s := ob), fresh := Suc (fresh s)\<rparr>)"

text \<open>A method call \<^verbatim>\<open>observer.m(...)\<close> through a reference.\<close>

definition invoke :: "nat \<Rightarrow> ('a, 'e, 'z) Observer_method \<Rightarrow> ('a, 'e, 'z) state \<Rightarrow> error + ('a, 'e, 'z) state" where
  "invoke observer m s =
     (case m (heap s observer) (env s) of
        Inl x \<Rightarrow> Inl x
      | Inr (this1, w1) \<Rightarrow> Inr (s\<lparr>heap := (heap s)(observer := this1), env := w1\<rparr>))"

section \<open>Observable\<close>

text \<open>
  \<^verbatim>\<open>class Observable<T>\<close> has the one field \<^verbatim>\<open>_subscribe\<close>, the producer: it is given
  the reference to the Observer, and returns a teardown action or nothing.
\<close>

type_synonym ('a, 'e, 'z) producer =
  "nat \<Rightarrow> ('a, 'e, 'z) state \<Rightarrow> error + ('z action option \<times> ('a, 'e, 'z) state)"

record ('a, 'e, 'z) Observable =
  field_subscribe :: "('a, 'e, 'z) producer"

definition new_Observable :: "('a, 'e, 'z) producer \<Rightarrow> ('a, 'e, 'z) Observable" where
  "new_Observable subscribe = \<lparr>field_subscribe = subscribe\<rparr>"

text \<open>
  \<^verbatim>\<open>subscribe(handlers)\<close>. The two source files test the producer's result by
  \<^verbatim>\<open>if (unsubscribeFn)\<close> and by \<^verbatim>\<open>typeof unsubscribeFn === 'function'\<close>, which agree on
  a function or nothing. The returned handle closes over the Observer: it is modelled by
  the Observer's address, and \<open>handle_unsubscribe\<close> is its \<^verbatim>\<open>unsubscribe()\<close>.
\<close>

definition Observable_subscribe ::
  "('a, 'e, 'z) Observable \<Rightarrow> ('a, 'e, 'z) Handler \<Rightarrow> ('a, 'e, 'z) state
     \<Rightarrow> error + (nat \<times> ('a, 'e, 'z) state)" where
  "Observable_subscribe obs hs s =
     (case allocate (new_Observer hs) s of
        (observer, s1) \<Rightarrow>
          (case field_subscribe obs observer s1 of
             Inl x \<Rightarrow> Inl x
           | Inr (unsubscribeFn, s2) \<Rightarrow>
               Inr (observer,
                    if present unsubscribeFn
                    then s2\<lparr>heap := (heap s2)
                           (observer := (heap s2 observer)\<lparr>field_unsubscribe := unsubscribeFn\<rparr>)\<rparr>
                    else s2)))"

definition handle_unsubscribe :: "nat \<Rightarrow> ('a, 'e, 'z) state \<Rightarrow> error + ('a, 'e, 'z) state" where
  "handle_unsubscribe observer = invoke observer Observer_unsubscribe"

text \<open>\<^verbatim>\<open>values.forEach(f)\<close>, for an \<open>f\<close> that may raise.\<close>

fun forEach :: "'a list \<Rightarrow> ('a \<Rightarrow> 's \<Rightarrow> error + 's) \<Rightarrow> 's \<Rightarrow> error + 's" where
  "forEach [] f s = Inr s"
| "forEach (value # values) f s =
     (case f value s of
        Inl x \<Rightarrow> Inl x
      | Inr s1 \<Rightarrow> forEach values f s1)"

text \<open>
  \<^verbatim>\<open>Observable.from(values)\<close>. The teardown action it returns writes one line to the
  console; the line is \<open>msg\<close>, which is the one difference between the two source files.
\<close>

definition from_with :: "string \<Rightarrow> 'a list \<Rightarrow> ('a, 'e, 'z) Observable" where
  "from_with msg values =
     new_Observable (\<lambda>observer s.
       case forEach values (\<lambda>value. invoke observer (Observer_next value)) s of
         Inl x \<Rightarrow> Inl x
       | Inr s1 \<Rightarrow>
           (case invoke observer Observer_complete s1 of
              Inl x \<Rightarrow> Inl x
            | Inr s2 \<Rightarrow> Inr (Some (console_log msg), s2)))"

definition Observable_from :: "'a list \<Rightarrow> ('a, 'e, 'z) Observable" where
  "Observable_from = from_with ''unsubscribed''"

definition Observable_from_part_000 :: "'a list \<Rightarrow> ('a, 'e, 'z) Observable" where
  \<open>Observable_from_part_000 = from_with ''Unsubscribed from the "from" array observable.''\<close>

text \<open>
  A producer that makes the given calls on its Observer while \<^verbatim>\<open>subscribe\<close> runs, and
  returns the given teardown action or nothing. The \<^verbatim>\<open>erroringObservable\<close> of the
  demonstration is of this kind.
\<close>

definition emitting :: "('a, 'e) operation list \<Rightarrow> 'z action option \<Rightarrow> ('a, 'e, 'z) producer" where
  "emitting ops td observer s =
     (case invoke observer (perform_all ops) s of
        Inl x \<Rightarrow> Inl x
      | Inr s1 \<Rightarrow> Inr (td, s1))"

definition erroringObservable :: "'a \<Rightarrow> 'a \<Rightarrow> 'e \<Rightarrow> ('a, 'e, 'z) Observable" where
  "erroringObservable request0 request1 err =
     new_Observable (\<lambda>observer s.
       case invoke observer (Observer_next request0) s of
         Inl x \<Rightarrow> Inl x
       | Inr s1 \<Rightarrow>
           (case invoke observer (Observer_error err) s1 of
              Inl x \<Rightarrow> Inl x
            | Inr s2 \<Rightarrow>
                (case invoke observer (Observer_next request1) s2 of
                   Inl x \<Rightarrow> Inl x
                 | Inr s3 \<Rightarrow> Inr (None, s3))))"

text \<open>The state before anything is subscribed; an address not given out holds a blank object.\<close>

definition no_handlers :: "('a, 'e, 'z) Handler" where
  "no_handlers = \<lparr>next = None, error = None, complete = None\<rparr>"

definition initial :: "'z environment_scheme \<Rightarrow> ('a, 'e, 'z) state" where
  "initial w = \<lparr>heap = (\<lambda>_. new_Observer no_handlers), fresh = 0, env = w\<rparr>"

section \<open>Recording callbacks\<close>

text \<open>
  To count and order the calls of the callbacks, a caller's environment gets a list of
  the calls made, and a recording callback appends its call to the list.
\<close>

datatype ('a, 'e) invocation = NextCall 'a | ErrorCall 'e | CompleteCall | TeardownCall

record 'c recording = environment +
  calls :: "'c list"

definition record_call :: "'c \<Rightarrow> ('c, 'y) recording_ext action" where
  "record_call c w = w\<lparr>calls := calls w @ [c]\<rparr>"

definition recorder :: "(('a, 'e) invocation \<Rightarrow> 'c) \<Rightarrow> ('a, 'e, ('c, 'y) recording_ext) Handler" where
  "recorder tag =
     \<lparr>next = Some (\<lambda>v. record_call (tag (NextCall v))),
      error = Some (\<lambda>err. record_call (tag (ErrorCall err))),
      complete = Some (record_call (tag CompleteCall))\<rparr>"

section \<open>Notions used to state the properties\<close>

text \<open>The effect on the environment of a call that is made only if the callback is there.\<close>

fun effect0 :: "('w \<Rightarrow> 'w) option \<Rightarrow> 'w \<Rightarrow> 'w" where
  "effect0 None w = w"
| "effect0 (Some f) w = f w"

fun effect1 :: "('x \<Rightarrow> 'w \<Rightarrow> 'w) option \<Rightarrow> 'x \<Rightarrow> 'w \<Rightarrow> 'w" where
  "effect1 None x w = w"
| "effect1 (Some f) x w = f x w"

text \<open>
  The signals are \<^verbatim>\<open>next\<close>, \<^verbatim>\<open>error\<close> and \<^verbatim>\<open>complete\<close>; the terminal calls are
  \<^verbatim>\<open>error\<close>, \<^verbatim>\<open>complete\<close> and \<^verbatim>\<open>unsubscribe\<close>.
\<close>

fun is_signal :: "('a, 'e) operation \<Rightarrow> bool" where
  "is_signal (Next v) = True"
| "is_signal (Error err) = True"
| "is_signal Complete = True"
| "is_signal Unsubscribe = False"

fun is_terminal :: "('a, 'e) operation \<Rightarrow> bool" where
  "is_terminal (Next v) = False"
| "is_terminal (Error err) = True"
| "is_terminal Complete = True"
| "is_terminal Unsubscribe = True"

text \<open>
  The successive states of an Observer under a sequence of calls: the state before the
  first call, then the state after each call that returned.
\<close>

fun history :: "('a, 'e) operation list \<Rightarrow> ('a, 'e, 'z) Observer \<Rightarrow> 'z environment_scheme
    \<Rightarrow> ('a, 'e, 'z) Observer list" where
  "history [] this w = [this]"
| "history (x # xs) this w =
     this # (case perform x this w of
               Inl e \<Rightarrow> []
             | Inr (this1, w1) \<Rightarrow> history xs this1 w1)"

text \<open>\<open>n\<close> calls of the handle's \<^verbatim>\<open>unsubscribe()\<close>, one after the other.\<close>

fun unsubscribe_times :: "nat \<Rightarrow> nat \<Rightarrow> ('a, 'e, 'z) state \<Rightarrow> error + ('a, 'e, 'z) state" where
  "unsubscribe_times 0 observer s = Inr s"
| "unsubscribe_times (Suc n) observer s =
     (case handle_unsubscribe observer s of
        Inl x \<Rightarrow> Inl x
      | Inr s1 \<Rightarrow> unsubscribe_times n observer s1)"

text \<open>
  The run of the demonstration: in the state before anything is subscribed, subscribe,
  then call \<^verbatim>\<open>unsubscribe()\<close> on the returned handle \<open>n\<close> times. The result is the
  caller's environment at the end.
\<close>

definition subscribe_then_unsubscribe ::
  "('a, 'e, 'z) Observable \<Rightarrow> ('a, 'e, 'z) Handler \<Rightarrow> nat \<Rightarrow> 'z environment_scheme
     \<Rightarrow> error + 'z environment_scheme" where
  "subscribe_then_unsubscribe obs hs n w =
     (case Observable_subscribe obs hs (initial w) of
        Inl x \<Rightarrow> Inl x
      | Inr (subscription, s) \<Rightarrow>
          (case unsubscribe_times n subscription s of
             Inl x \<Rightarrow> Inl x
           | Inr s1 \<Rightarrow> Inr (env s1)))"

text \<open>
  The state machine of the specification (states Active and Terminated), as a function:
  the handler calls a subscriber with all three handlers is to get from a sequence of
  calls on its Observer; \<open>u\<close> says whether the Observer is Terminated already. It is
  written from the specification, to compare the code with.
\<close>

fun spec_deliveries :: "bool \<Rightarrow> ('a, 'e) operation list \<Rightarrow> ('a, 'e) invocation list" where
  "spec_deliveries u [] = []"
| "spec_deliveries u (Next v # xs) = (if u then [] else [NextCall v]) @ spec_deliveries u xs"
| "spec_deliveries u (Error err # xs) =
     (if u then [] else [ErrorCall err]) @ spec_deliveries True xs"
| "spec_deliveries u (Complete # xs) =
     (if u then [] else [CompleteCall]) @ spec_deliveries True xs"
| "spec_deliveries u (Unsubscribe # xs) = spec_deliveries True xs"

text \<open>
  An Observer whose three handlers and whose teardown action record their calls, and an
  environment in which nothing has been written or recorded: the concrete inputs of the
  examples below.
\<close>

type_synonym probe = "((int, string) invocation, unit) recording_ext"

definition recording_Observer :: "(int, string, probe) Observer" where
  "recording_Observer =
     \<lparr>handlers = recorder id, isUnsubscribed = False,
      field_unsubscribe = Some (record_call TeardownCall)\<rparr>"

definition blank :: "(int, string) invocation recording" where
  "blank = \<lparr>console = [], calls = []\<rparr>"

section \<open>Basic facts\<close>

text \<open>
  What each method returns, as one equation. No method raises: every call of a callback
  is guarded by the test that the callback is there.
\<close>

lemma unsubscribe_eq:
  "Observer_unsubscribe this w =
     Inr (this\<lparr>isUnsubscribed := True\<rparr>, effect0 (field_unsubscribe this) w)"
  by (cases "field_unsubscribe this") (simp_all add: Observer_unsubscribe_def)

lemma next_eq:
  "Observer_next v this w =
     Inr (this, if isUnsubscribed this then w else effect1 (next (handlers this)) v w)"
  by (cases "next (handlers this)") (simp_all add: Observer_next_def)

lemma error_eq:
  "Observer_error err this w =
     (if isUnsubscribed this then Inr (this, w)
      else Inr (this\<lparr>isUnsubscribed := True\<rparr>,
                effect0 (field_unsubscribe this) (effect1 (error (handlers this)) err w)))"
  by (cases "error (handlers this)") (simp_all add: Observer_error_def unsubscribe_eq)

lemma complete_eq:
  "Observer_complete this w =
     (if isUnsubscribed this then Inr (this, w)
      else Inr (this\<lparr>isUnsubscribed := True\<rparr>,
                effect0 (field_unsubscribe this) (effect0 (complete (handlers this)) w)))"
  by (cases "complete (handlers this)") (simp_all add: Observer_complete_def unsubscribe_eq)

lemma signal_silent:
  "isUnsubscribed this \<Longrightarrow> is_signal x \<Longrightarrow> perform x this w = Inr (this, w)"
  by (cases x) (simp_all add: next_eq error_eq complete_eq)

lemma perform_returns: "\<exists>this1 w1. perform x this w = Inr (this1, w1)"
  by (cases x) (simp_all add: next_eq error_eq complete_eq unsubscribe_eq)

lemma perform_flag:
  "perform x this w = Inr (this1, w1) \<Longrightarrow>
     isUnsubscribed this1 = (isUnsubscribed this \<or> is_terminal x)"
  by (cases x) (auto simp: next_eq error_eq complete_eq unsubscribe_eq split: if_splits)

lemma perform_fields:
  "perform x this w = Inr (this1, w1) \<Longrightarrow>
     handlers this1 = handlers this \<and> field_unsubscribe this1 = field_unsubscribe this"
  by (cases x) (auto simp: next_eq error_eq complete_eq unsubscribe_eq split: if_splits)

lemma perform_all_append:
  "perform_all (xs @ ys) this w =
     (case perform_all xs this w of
        Inl e \<Rightarrow> Inl e
      | Inr (this1, w1) \<Rightarrow> perform_all ys this1 w1)"
  by (induction xs arbitrary: this w) (auto split: sum.splits)

lemma perform_all_returns: "\<exists>this1 w1. perform_all xs this w = Inr (this1, w1)"
proof (induction xs arbitrary: this w)
  case Nil
  show ?case by simp
next
  case (Cons x xs)
  obtain this1 w1 where "perform x this w = Inr (this1, w1)"
    using perform_returns by blast
  with Cons.IH [of this1 w1] show ?case by simp
qed

lemma perform_all_flag:
  "perform_all xs this w = Inr (this1, w1) \<Longrightarrow>
     isUnsubscribed this1 = (isUnsubscribed this \<or> list_ex is_terminal xs)"
proof (induction xs arbitrary: this w)
  case Nil
  then show ?case by simp
next
  case (Cons x xs)
  obtain this2 w2 where p: "perform x this w = Inr (this2, w2)"
    using perform_returns by blast
  with Cons.prems have "perform_all xs this2 w2 = Inr (this1, w1)" by simp
  from Cons.IH [OF this] perform_flag [OF p] show ?case by auto
qed

lemma signals_silent:
  "isUnsubscribed this \<Longrightarrow> list_all is_signal xs \<Longrightarrow> perform_all xs this w = Inr (this, w)"
  by (induction xs) (simp_all add: signal_silent)

text \<open>
  The successive states: every call returns, and the flag, once set, stays set.
\<close>

lemma history_length: "length (history xs this w) = Suc (length xs)"
proof (induction xs arbitrary: this w)
  case Nil
  show ?case by simp
next
  case (Cons x xs)
  obtain this1 w1 where "perform x this w = Inr (this1, w1)"
    using perform_returns by blast
  with Cons.IH [of this1 w1] show ?case by simp
qed

lemma history_unsubscribed:
  "isUnsubscribed this \<Longrightarrow> j \<le> length xs \<Longrightarrow> isUnsubscribed (history xs this w ! j)"
proof (induction xs arbitrary: this w j)
  case Nil
  then show ?case by simp
next
  case (Cons x xs)
  obtain this1 w1 where p: "perform x this w = Inr (this1, w1)"
    using perform_returns by blast
  show ?case
  proof (cases j)
    case 0
    with Cons.prems show ?thesis by simp
  next
    case (Suc k)
    from perform_flag [OF p] Cons.prems have "isUnsubscribed this1" by simp
    from Cons.IH [OF this, of k w1] Cons.prems Suc p show ?thesis by simp
  qed
qed

lemma history_monotone:
  "i \<le> j \<Longrightarrow> j \<le> length xs \<Longrightarrow> isUnsubscribed (history xs this w ! i)
     \<Longrightarrow> isUnsubscribed (history xs this w ! j)"
proof (induction xs arbitrary: this w i j)
  case Nil
  then show ?case by simp
next
  case (Cons x xs)
  obtain this1 w1 where p: "perform x this w = Inr (this1, w1)"
    using perform_returns by blast
  show ?case
  proof (cases i)
    case 0
    with Cons.prems have "isUnsubscribed this" by simp
    from history_unsubscribed [OF this, of j "x # xs" w] Cons.prems show ?thesis by simp
  next
    case (Suc i')
    with Cons.prems obtain j' where j: "j = Suc j'" by (cases j) auto
    from Cons.IH [of i' j' this1 w1] Cons.prems Suc j p show ?thesis by simp
  qed
qed

lemma history_flags:
  "map isUnsubscribed (history xs this w) =
     (if isUnsubscribed this then replicate (Suc (length xs)) True
      else replicate (Suc (length (takeWhile (\<lambda>x. \<not> is_terminal x) xs))) False
           @ replicate (length xs - length (takeWhile (\<lambda>x. \<not> is_terminal x) xs)) True)"
proof (induction xs arbitrary: this w)
  case Nil
  show ?case by simp
next
  case (Cons x xs)
  obtain this1 w1 where p: "perform x this w = Inr (this1, w1)"
    using perform_returns by blast
  from perform_flag [OF p] Cons.IH [of this1 w1] p show ?case
    by (simp add: Suc_diff_le length_takeWhile_le)
qed

text \<open>
  After a terminal call the Observer is unsubscribed, so a later signal can be dropped
  from a sequence of calls without changing its result.
\<close>

lemma after_terminal:
  assumes "is_terminal x"
    and "perform_all (before @ x # between) this w = Inr (this1, w1)"
  shows "isUnsubscribed this1"
proof -
  from assms(1) have "list_ex is_terminal (before @ x # between)" by simp
  with perform_all_flag [OF assms(2)] show ?thesis by simp
qed

lemma drop_silent_call:
  assumes "is_terminal x" and "is_signal y"
  shows "perform_all (before @ x # between @ y # after) this w =
         perform_all (before @ x # between @ after) this w"
proof -
  obtain this1 w1 where p: "perform_all (before @ x # between) this w = Inr (this1, w1)"
    using perform_all_returns by blast
  from after_terminal [OF assms(1) p] have "isUnsubscribed this1" .
  from signal_silent [OF this assms(2)] have q: "perform y this1 w1 = Inr (this1, w1)" .
  have "perform_all ((before @ x # between) @ y # after) this w = perform_all after this1 w1"
    using p q by (simp only: perform_all_append [of "before @ x # between"]) simp
  moreover have "perform_all ((before @ x # between) @ after) this w = perform_all after this1 w1"
    using p by (simp only: perform_all_append [of "before @ x # between"]) simp
  ultimately show ?thesis by simp
qed

text \<open>
  Calls through a reference. \<^verbatim>\<open>Observable.from\<close> and the \<^verbatim>\<open>erroringObservable\<close> of the
  demonstration are Observables whose producer makes a fixed sequence of calls.
\<close>

lemma perform_all_fields:
  "perform_all xs this w = Inr (this1, w1) \<Longrightarrow>
     handlers this1 = handlers this \<and> field_unsubscribe this1 = field_unsubscribe this"
proof (induction xs arbitrary: this w)
  case Nil
  then show ?case by simp
next
  case (Cons x xs)
  obtain this2 w2 where p: "perform x this w = Inr (this2, w2)"
    using perform_returns by blast
  with Cons.prems have "perform_all xs this2 w2 = Inr (this1, w1)" by simp
  from Cons.IH [OF this] perform_fields [OF p] show ?case by simp
qed

lemma invoke_skip [simp]: "invoke a (\<lambda>this w. Inr (this, w)) s = Inr s"
  by (simp add: invoke_def)

lemma invoke_append:
  "invoke a (perform_all (xs @ ys)) s =
     (case invoke a (perform_all xs) s of
        Inl e \<Rightarrow> Inl e
      | Inr s1 \<Rightarrow> invoke a (perform_all ys) s1)"
  by (auto simp: invoke_def perform_all_append split: sum.splits)

lemma invoke_Cons:
  "invoke a (perform_all (x # xs)) s =
     (case invoke a (perform x) s of
        Inl e \<Rightarrow> Inl e
      | Inr s1 \<Rightarrow> invoke a (perform_all xs) s1)"
  by (auto simp: invoke_def split: sum.splits)

lemma forEach_next:
  "forEach values (\<lambda>value. invoke a (Observer_next value)) s =
     invoke a (perform_all (map Next values)) s"
proof (induction "values" arbitrary: s)
  case Nil
  have "perform_all [] = (\<lambda>this w. Inr (this, w))" by (intro ext) simp
  then show ?case by simp
next
  case (Cons v vs)
  have "invoke a (perform_all (map Next (v # vs))) s =
      (case invoke a (Observer_next v) s of
         Inl e \<Rightarrow> Inl e
       | Inr s1 \<Rightarrow> invoke a (perform_all (map Next vs)) s1)"
    by (simp only: list.map invoke_Cons perform.simps)
  then show ?case by (simp add: Cons.IH del: perform_all.simps split: sum.splits)
qed

lemma invoke_complete: "invoke a Observer_complete s = invoke a (perform_all [Complete]) s"
  by (auto simp: invoke_def split: sum.splits)

lemma from_with_emitting:
  "from_with msg values =
     new_Observable (emitting (map Next values @ [Complete]) (Some (console_log msg)))"
proof -
  have "emitting (map Next values @ [Complete]) (Some (console_log msg)) observer s =
      (case forEach values (\<lambda>value. invoke observer (Observer_next value)) s of
         Inl x \<Rightarrow> Inl x
       | Inr s1 \<Rightarrow>
           (case invoke observer Observer_complete s1 of
              Inl x \<Rightarrow> Inl x
            | Inr s2 \<Rightarrow> Inr (Some (console_log msg), s2)))"
    for observer and s :: "('a, 'b, 'c) state"
    unfolding emitting_def
    by (simp add: invoke_append forEach_next invoke_complete del: perform_all.simps
          split: sum.splits)
  then show ?thesis
    unfolding from_with_def by (intro arg_cong [where f = new_Observable] ext) simp
qed

lemma erroringObservable_emitting:
  "erroringObservable request0 request1 err =
     new_Observable (emitting [Next request0, Error err, Next request1] None)"
  unfolding erroringObservable_def emitting_def
  by (intro arg_cong [where f = new_Observable] ext)
     (auto simp: invoke_def split: sum.splits)

text \<open>
  What \<^verbatim>\<open>subscribe\<close> returns: the new Observer is at the fresh address, in the state
  the producer's calls left it in, with the producer's teardown action registered
  afterwards.
\<close>

lemma subscribe_emitting:
  assumes "perform_all ops (new_Observer hs) (env s) = Inr (this1, w1)"
  shows "Observable_subscribe (new_Observable (emitting ops td)) hs s =
     Inr (fresh s,
          \<lparr>heap = (heap s)(fresh s := this1\<lparr>field_unsubscribe := td\<rparr>),
           fresh = Suc (fresh s), env = w1\<rparr>)"
proof -
  from perform_all_fields [OF assms] have "field_unsubscribe this1 = None"
    by (simp add: new_Observer_def)
  then have "this1\<lparr>field_unsubscribe := None\<rparr> = this1" by simp
  with assms show ?thesis
    by (cases td)
       (simp_all add: Observable_subscribe_def new_Observable_def emitting_def allocate_def
          invoke_def)
qed

lemma nexts_active:
  "\<not> isUnsubscribed this \<Longrightarrow>
     perform_all (map Next vs) this w = Inr (this, fold (effect1 (next (handlers this))) vs w)"
  by (induction vs arbitrary: w) (simp_all add: next_eq)

lemma nexts_then_complete:
  assumes "\<not> isUnsubscribed this"
  shows "perform_all (map Next vs @ [Complete]) this w =
     Inr (this\<lparr>isUnsubscribed := True\<rparr>,
          effect0 (field_unsubscribe this)
            (effect0 (complete (handlers this)) (fold (effect1 (next (handlers this))) vs w)))"
  using assms by (simp add: perform_all_append nexts_active complete_eq)

lemma subscribe_from:
  "Observable_subscribe (from_with msg vs) hs s =
     Inr (fresh s,
          \<lparr>heap = (heap s)(fresh s :=
                    \<lparr>handlers = hs, isUnsubscribed = True,
                     field_unsubscribe = Some (console_log msg)\<rparr>),
           fresh = Suc (fresh s),
           env = effect0 (complete hs) (fold (effect1 (next hs)) vs (env s))\<rparr>)"
proof -
  have "perform_all (map Next vs @ [Complete]) (new_Observer hs) (env s) =
      Inr ((new_Observer hs)\<lparr>isUnsubscribed := True\<rparr>,
           effect0 (complete hs) (fold (effect1 (next hs)) vs (env s)))"
    using nexts_then_complete [of "new_Observer hs" vs "env s"]
    by (simp add: new_Observer_def)
  from subscribe_emitting [OF this, of "Some (console_log msg)"] show ?thesis
    by (simp add: from_with_emitting new_Observer_def)
qed

lemma effect0_Some: "effect0 (Some f) = f"
  by (intro ext) simp

text \<open>
  The handle's \<^verbatim>\<open>unsubscribe()\<close>, once and repeated.
\<close>

lemma handle_unsubscribe_eq:
  "handle_unsubscribe a s =
     Inr (s\<lparr>heap := (heap s)(a := (heap s a)\<lparr>isUnsubscribed := True\<rparr>),
            env := effect0 (field_unsubscribe (heap s a)) (env s)\<rparr>)"
  by (simp add: handle_unsubscribe_def invoke_def unsubscribe_eq)

lemma unsubscribe_times_eq:
  "unsubscribe_times (Suc n) a s =
     Inr (s\<lparr>heap := (heap s)(a := (heap s a)\<lparr>isUnsubscribed := True\<rparr>),
            env := (effect0 (field_unsubscribe (heap s a)) ^^ Suc n) (env s)\<rparr>)"
proof (induction n arbitrary: s)
  case 0
  show ?case
    by (simp only: unsubscribe_times.simps handle_unsubscribe_eq sum.case funpow.simps
          comp_apply id_apply)
next
  case (Suc n)
  have "unsubscribe_times (Suc (Suc n)) a s =
      unsubscribe_times (Suc n) a
        (s\<lparr>heap := (heap s)(a := (heap s a)\<lparr>isUnsubscribed := True\<rparr>),
           env := effect0 (field_unsubscribe (heap s a)) (env s)\<rparr>)"
    by (simp add: handle_unsubscribe_eq)
  also have "\<dots> = Inr (s\<lparr>heap := (heap s)(a := (heap s a)\<lparr>isUnsubscribed := True\<rparr>),
            env := (effect0 (field_unsubscribe (heap s a)) ^^ Suc (Suc n)) (env s)\<rparr>)"
    by (simp only: Suc.IH) (auto intro!: state.equality simp: funpow_swap1 fun_eq_iff)
  finally show ?case .
qed

lemma console_log_funpow:
  "(console_log msg ^^ n) w = w\<lparr>console := console w @ replicate n msg\<rparr>"
proof (induction n)
  case 0
  show ?case by simp
next
  case (Suc n)
  then show ?case by (simp add: console_log_def replicate_append_same)
qed

lemma subscribe_from_then_unsubscribe:
  "subscribe_then_unsubscribe (from_with msg vs) hs n w =
     Inr ((effect0 (complete hs) (fold (effect1 (next hs)) vs w))
            \<lparr>console := console (effect0 (complete hs) (fold (effect1 (next hs)) vs w))
                          @ replicate n msg\<rparr>)"
proof (cases n)
  case 0
  then show ?thesis
    by (simp add: subscribe_then_unsubscribe_def subscribe_from initial_def)
next
  case (Suc m)
  then show ?thesis
    by (simp only: subscribe_then_unsubscribe_def subscribe_from unsubscribe_times_eq)
       (simp add: initial_def console_log_funpow effect0_Some del: funpow.simps)
qed

lemma producer_emitting:
  assumes "perform_all ops (heap s a) (env s) = Inr (this1, w1)"
  shows "field_subscribe (new_Observable (emitting ops td)) a s =
     Inr (td, s\<lparr>heap := (heap s)(a := this1), env := w1\<rparr>)"
  using assms by (simp add: new_Observable_def emitting_def invoke_def)

lemma effect1_Some: "effect1 (Some f) = f"
  by (intro ext) simp

lemma fold_effect1_None: "fold (effect1 None) vs w = w"
  by (induction vs) simp_all

lemma set_flag_again: "isUnsubscribed this \<Longrightarrow> this\<lparr>isUnsubscribed := True\<rparr> = this"
  by simp

text \<open>
  An Observer without handlers and without a teardown action leaves the environment
  alone.
\<close>

lemma no_handlers_step:
  assumes "handlers this = no_handlers" and "field_unsubscribe this = None"
  shows "perform x this w =
     Inr (this\<lparr>isUnsubscribed := isUnsubscribed this \<or> is_terminal x\<rparr>, w)"
  using assms
  by (cases x; cases "isUnsubscribed this")
     (simp_all add: next_eq error_eq complete_eq unsubscribe_eq no_handlers_def)

lemma no_handlers_silent:
  assumes "handlers this = no_handlers" and "field_unsubscribe this = None"
  shows "perform_all xs this w =
     Inr (this\<lparr>isUnsubscribed := isUnsubscribed this \<or> list_ex is_terminal xs\<rparr>, w)"
  using assms
proof (induction xs arbitrary: this)
  case Nil
  then show ?case by simp
next
  case (Cons x xs)
  from Cons.prems
  have "perform_all (x # xs) this w =
      perform_all xs (this\<lparr>isUnsubscribed := isUnsubscribed this \<or> is_terminal x\<rparr>) w"
    by (simp add: no_handlers_step)
  also have "\<dots> = Inr (this\<lparr>isUnsubscribed := isUnsubscribed this \<or> list_ex is_terminal (x # xs)\<rparr>, w)"
    using Cons.prems
    by (simp add: Cons.IH [of "this\<lparr>isUnsubscribed := isUnsubscribed this \<or> is_terminal x\<rparr>"])
  finally show ?case .
qed

lemma fold_record_call:
  "fold (\<lambda>v. record_call (f v)) vs w = w\<lparr>calls := calls w @ map f vs\<rparr>"
  by (induction vs arbitrary: w) (simp_all add: record_call_def)

lemma invoke_signals_silent:
  assumes "isUnsubscribed (heap s a)" and "list_all is_signal xs"
  shows "invoke a (perform_all xs) s = Inr s"
  using signals_silent [OF assms, of "env s"] by (simp add: invoke_def)

lemmas probe_defs = recording_Observer_def blank_def recorder_def record_call_def

text \<open>
  An Observer with recording handlers records what the specification's state machine
  delivers, provided its teardown action does not touch the record.
\<close>

lemma recorder_step:
  assumes "handlers this = recorder tag"
    and "\<forall>f w. field_unsubscribe this = Some f \<longrightarrow> calls (f w) = calls w"
  shows "\<exists>w1. perform x this w =
            Inr (this\<lparr>isUnsubscribed := isUnsubscribed this \<or> is_terminal x\<rparr>, w1)
          \<and> calls w1 = calls w @ map tag (spec_deliveries (isUnsubscribed this) [x])"
proof -
  have td: "calls (effect0 (field_unsubscribe this) w') = calls w'" for w'
    using assms(2) by (cases "field_unsubscribe this") simp_all
  show ?thesis
    using assms(1) td
    by (cases x; cases "isUnsubscribed this")
       (simp_all add: next_eq error_eq complete_eq unsubscribe_eq recorder_def record_call_def)
qed

lemma spec_deliveries_Cons:
  "spec_deliveries u (x # xs) =
     spec_deliveries u [x] @ spec_deliveries (u \<or> is_terminal x) xs"
  by (cases x) simp_all

lemma recorder_deliveries:
  assumes "handlers this = recorder tag"
    and "\<forall>f w. field_unsubscribe this = Some f \<longrightarrow> calls (f w) = calls w"
  shows "\<exists>w1. perform_all xs this w =
            Inr (this\<lparr>isUnsubscribed := isUnsubscribed this \<or> list_ex is_terminal xs\<rparr>, w1)
          \<and> calls w1 = calls w @ map tag (spec_deliveries (isUnsubscribed this) xs)"
  using assms
proof (induction xs arbitrary: this w)
  case Nil
  then show ?case by simp
next
  case (Cons x xs)
  let ?this1 = "this\<lparr>isUnsubscribed := isUnsubscribed this \<or> is_terminal x\<rparr>"
  from recorder_step [OF Cons.prems, of x w] obtain w1
    where p: "perform x this w = Inr (?this1, w1)"
      and c: "calls w1 = calls w @ map tag (spec_deliveries (isUnsubscribed this) [x])"
    by blast
  from Cons.prems have "handlers ?this1 = recorder tag"
    and "\<forall>f w. field_unsubscribe ?this1 = Some f \<longrightarrow> calls (f w) = calls w"
    by simp_all
  from Cons.IH [OF this, of w1] obtain w2
    where q: "perform_all xs ?this1 w1 =
        Inr (?this1\<lparr>isUnsubscribed := isUnsubscribed ?this1 \<or> list_ex is_terminal xs\<rparr>, w2)"
      and d: "calls w2 = calls w1 @ map tag (spec_deliveries (isUnsubscribed ?this1) xs)"
    by blast
  have "perform_all (x # xs) this w =
      Inr (this\<lparr>isUnsubscribed := isUnsubscribed this \<or> list_ex is_terminal (x # xs)\<rparr>, w2)"
    using p q by (simp add: disj_assoc)
  moreover have "calls w2 = calls w @ map tag (spec_deliveries (isUnsubscribed this) (x # xs))"
    using c d by (simp add: spec_deliveries_Cons [of _ x xs])
  ultimately show ?case by blast
qed

lemma invoke_eq:
  "m (heap s a) (env s) = Inr (this1, w1) \<Longrightarrow>
     invoke a m s = Inr (s\<lparr>heap := (heap s)(a := this1), env := w1\<rparr>)"
  by (simp add: invoke_def)

text \<open>
  Two Observers at different addresses: \<^verbatim>\<open>unsubscribe()\<close> on the one, in the middle
  of calls on the other, changes neither the other Observer nor what is recorded.
\<close>

lemma unsubscribe_other:
  assumes ab: "a \<noteq> b"
    and hb: "handlers (heap t b) = recorder tag"
    and kb: "\<forall>f w. field_unsubscribe (heap t b) = Some f \<longrightarrow> calls (f w) = calls w"
    and ka: "\<forall>f w. field_unsubscribe (heap t a) = Some f \<longrightarrow> calls (f w) = calls w"
  shows "\<exists>tA t3 t4 tB.
       invoke b (perform_all (xs @ ys)) t = Inr tA
     \<and> invoke b (perform_all xs) t = Inr t3
     \<and> handle_unsubscribe a t3 = Inr t4
     \<and> invoke b (perform_all ys) t4 = Inr tB
     \<and> calls (env tB) = calls (env tA)
     \<and> heap tB b = heap tA b
     \<and> calls (env tA) =
         calls (env t) @ map tag (spec_deliveries (isUnsubscribed (heap t b)) (xs @ ys))"
proof -
  let ?o = "heap t b"
  let ?o3 = "?o\<lparr>isUnsubscribed := isUnsubscribed ?o \<or> list_ex is_terminal xs\<rparr>"
  let ?o5 = "?o3\<lparr>isUnsubscribed := isUnsubscribed ?o3 \<or> list_ex is_terminal ys\<rparr>"
  have h3: "handlers ?o3 = recorder tag"
    and k3: "\<forall>f w. field_unsubscribe ?o3 = Some f \<longrightarrow> calls (f w) = calls w"
    using hb kb by simp_all
  from recorder_deliveries [OF hb kb, of xs "env t"] obtain w3
    where px: "perform_all xs ?o (env t) = Inr (?o3, w3)"
    by blast
  let ?t3 = "t\<lparr>heap := (heap t)(b := ?o3), env := w3\<rparr>"
  let ?w4 = "effect0 (field_unsubscribe (heap ?t3 a)) (env ?t3)"
  let ?t4 = "?t3\<lparr>heap := (heap ?t3)(a := (heap ?t3 a)\<lparr>isUnsubscribed := True\<rparr>), env := ?w4\<rparr>"
  have i3: "invoke b (perform_all xs) t = Inr ?t3"
    using px by (rule invoke_eq)
  have i4: "handle_unsubscribe a ?t3 = Inr ?t4"
    by (rule handle_unsubscribe_eq)
  have c4: "calls ?w4 = calls w3"
    using ab ka by (cases "field_unsubscribe (heap t a)") simp_all
  have o4: "heap ?t4 b = ?o3"
    using ab by simp
  from recorder_deliveries [OF h3 k3, of ys w3] obtain w5
    where py: "perform_all ys ?o3 w3 = Inr (?o5, w5)"
      and c5: "calls w5 = calls w3 @ map tag (spec_deliveries (isUnsubscribed ?o3) ys)"
    by blast
  from recorder_deliveries [OF h3 k3, of ys ?w4] obtain w6
    where pz: "perform_all ys ?o3 ?w4 = Inr (?o5, w6)"
      and c6: "calls w6 = calls ?w4 @ map tag (spec_deliveries (isUnsubscribed ?o3) ys)"
    by blast
  let ?tA = "?t3\<lparr>heap := (heap ?t3)(b := ?o5), env := w5\<rparr>"
  let ?tB = "?t4\<lparr>heap := (heap ?t4)(b := ?o5), env := w6\<rparr>"
  have "invoke b (perform_all ys) ?t3 = Inr ?tA"
    using py by (intro invoke_eq) simp
  with i3 have iA: "invoke b (perform_all (xs @ ys)) t = Inr ?tA"
    by (simp only: invoke_append sum.case)
  have iB: "invoke b (perform_all ys) ?t4 = Inr ?tB"
    using pz o4 by (intro invoke_eq) simp
  have e1: "calls (env ?tB) = calls (env ?tA)"
    using c4 c5 c6 by simp
  have e2: "heap ?tB b = heap ?tA b"
    by simp
  from recorder_deliveries [OF hb kb, of "xs @ ys" "env t"] obtain wA
    where pA: "perform_all (xs @ ys) ?o (env t) =
        Inr (?o\<lparr>isUnsubscribed := isUnsubscribed ?o \<or> list_ex is_terminal (xs @ ys)\<rparr>, wA)"
      and cA: "calls wA =
        calls (env t) @ map tag (spec_deliveries (isUnsubscribed ?o) (xs @ ys))"
    by blast
  have "perform_all (xs @ ys) ?o (env t) = Inr (?o5, w5)"
    using px py by (simp add: perform_all_append)
  with pA have "wA = w5" by simp
  with cA have e3: "calls (env ?tA) =
      calls (env t) @ map tag (spec_deliveries (isUnsubscribed ?o) (xs @ ys))"
    by simp
  from iA i3 i4 iB e1 e2 e3 show ?thesis by blast
qed

lemma subscribe_recorder:
  "\<exists>w1. Observable_subscribe (new_Observable (emitting ops td)) (recorder tag) s =
           Inr (fresh s,
                \<lparr>heap = (heap s)(fresh s :=
                          \<lparr>handlers = recorder tag,
                           isUnsubscribed = list_ex is_terminal ops,
                           field_unsubscribe = td\<rparr>),
                 fresh = Suc (fresh s), env = w1\<rparr>)
         \<and> calls w1 = calls (env s) @ map tag (spec_deliveries False ops)"
proof -
  from recorder_deliveries [of "new_Observer (recorder tag)" tag ops "env s"] obtain w1
    where p: "perform_all ops (new_Observer (recorder tag)) (env s) =
        Inr ((new_Observer (recorder tag))\<lparr>isUnsubscribed := list_ex is_terminal ops\<rparr>, w1)"
      and c: "calls w1 = calls (env s) @ map tag (spec_deliveries False ops)"
    by (auto simp: new_Observer_def)
  from subscribe_emitting [OF p, of td] c show ?thesis
    by (simp add: new_Observer_def)
qed

section \<open>The Observer: error, the flag, silence after a terminal call (claims C8, C9, C3, C4)\<close>

text \<open>
  Claim C8. On an Observer that is not unsubscribed, \<^verbatim>\<open>error(err)\<close> calls the error
  handler with \<open>err\<close> if there is one, and then unsubscribes (running the registered
  teardown action, if any): the result has \<open>isUnsubscribed\<close> set. On an Observer that
  is unsubscribed already, \<^verbatim>\<open>error(err)\<close> changes nothing. In both cases, once
  \<^verbatim>\<open>error\<close> has returned, \<open>isUnsubscribed\<close> holds and every sequence of later
  \<^verbatim>\<open>next\<close>, \<^verbatim>\<open>error\<close> and \<^verbatim>\<open>complete\<close> calls leaves the Observer and the
  environment as they are.
\<close>

theorem Observer_error_terminal:
  "Observer_error err this w =
     (if isUnsubscribed this then Inr (this, w)
      else Inr (this\<lparr>isUnsubscribed := True\<rparr>,
                effect0 (field_unsubscribe this) (effect1 (error (handlers this)) err w)))
   \<and> (\<forall>this1 w1. Observer_error err this w = Inr (this1, w1) \<longrightarrow>
         isUnsubscribed this1
         \<and> (\<forall>xs w2. list_all is_signal xs \<longrightarrow> perform_all xs this1 w2 = Inr (this1, w2)))"
  by (auto simp: error_eq signals_silent)

text \<open>
  The recording Observer: \<^verbatim>\<open>error("x")\<close> records the call of the error handler and
  then the call of the teardown action; three signals sent afterwards record nothing.
\<close>

theorem Observer_error_terminal_witness:
  "Observer_error ''x'' recording_Observer blank =
     Inr (recording_Observer\<lparr>isUnsubscribed := True\<rparr>,
          \<lparr>console = [], calls = [ErrorCall ''x'', TeardownCall]\<rparr>)
   \<and> list_all is_signal [Next 1, Error ''y'', Complete]
   \<and> perform_all [Next 1, Error ''y'', Complete]
        (recording_Observer\<lparr>isUnsubscribed := True\<rparr>) blank =
       Inr (recording_Observer\<lparr>isUnsubscribed := True\<rparr>, blank)"
proof -
  note t = Observer_error_terminal [of "''x''" recording_Observer blank]
  from t have e: "Observer_error ''x'' recording_Observer blank =
     Inr (recording_Observer\<lparr>isUnsubscribed := True\<rparr>,
          \<lparr>console = [], calls = [ErrorCall ''x'', TeardownCall]\<rparr>)"
    by (simp add: probe_defs)
  have s: "list_all is_signal [Next (1 :: int), Error ''y'', Complete]" by simp
  from t e s have "perform_all [Next 1, Error ''y'', Complete]
        (recording_Observer\<lparr>isUnsubscribed := True\<rparr>) blank =
       Inr (recording_Observer\<lparr>isUnsubscribed := True\<rparr>, blank)"
    by blast
  with e s show ?thesis by simp
qed

text \<open>
  Claim C9. A new Observer has \<open>isUnsubscribed\<close> false. Under any sequence of
  \<^verbatim>\<open>next\<close>, \<^verbatim>\<open>error\<close>, \<^verbatim>\<open>complete\<close> and \<^verbatim>\<open>unsubscribe\<close> calls every call
  returns, and if \<open>isUnsubscribed\<close> holds in one of the successive states it holds in
  all later ones. So the flags of the successive states of a new Observer are a block of
  \<open>False\<close> followed by a block of \<open>True\<close>: the flag goes from false to true at most
  once.
\<close>

theorem isUnsubscribed_never_reverts:
  "\<not> isUnsubscribed (new_Observer hs)
   \<and> length (history xs this w) = Suc (length xs)
   \<and> (\<forall>i j. i \<le> j \<and> j \<le> length xs \<and> isUnsubscribed (history xs this w ! i)
         \<longrightarrow> isUnsubscribed (history xs this w ! j))
   \<and> (\<exists>k. k \<le> length xs
         \<and> map isUnsubscribed (history xs (new_Observer hs) w) =
             replicate (Suc k) False @ replicate (length xs - k) True)"
proof (intro conjI allI impI)
  show f: "\<not> isUnsubscribed (new_Observer hs)" by (simp add: new_Observer_def)
  show "length (history xs this w) = Suc (length xs)" by (rule history_length)
  show "\<exists>k. k \<le> length xs
         \<and> map isUnsubscribed (history xs (new_Observer hs) w) =
             replicate (Suc k) False @ replicate (length xs - k) True"
    using f history_flags [of xs "new_Observer hs" w] length_takeWhile_le by fastforce
next
  fix i j
  assume "i \<le> j \<and> j \<le> length xs \<and> isUnsubscribed (history xs this w ! i)"
  then show "isUnsubscribed (history xs this w ! j)"
    using history_monotone by blast
qed

text \<open>
  The recording Observer under \<^verbatim>\<open>next(1)\<close>, \<^verbatim>\<open>complete()\<close>, \<^verbatim>\<open>unsubscribe()\<close>: the
  flag is set by the second call and is still set after the third.
\<close>

theorem isUnsubscribed_never_reverts_witness:
  "history [Next 1, Complete, Unsubscribe] recording_Observer blank =
     [recording_Observer, recording_Observer,
      recording_Observer\<lparr>isUnsubscribed := True\<rparr>,
      recording_Observer\<lparr>isUnsubscribed := True\<rparr>]
   \<and> Suc (Suc 0) \<le> Suc (Suc (Suc 0))
   \<and> Suc (Suc (Suc 0)) \<le> length [Next (1 :: int), Complete, Unsubscribe :: (int, string) operation]
   \<and> isUnsubscribed (history [Next 1, Complete, Unsubscribe] recording_Observer blank ! Suc (Suc 0))
   \<and> isUnsubscribed (history [Next 1, Complete, Unsubscribe] recording_Observer blank ! Suc (Suc (Suc 0)))"
proof -
  note t = isUnsubscribed_never_reverts [of "recorder id" "[Next 1, Complete, Unsubscribe]" recording_Observer blank]
  have h: "history [Next 1, Complete, Unsubscribe] recording_Observer blank =
     [recording_Observer, recording_Observer,
      recording_Observer\<lparr>isUnsubscribed := True\<rparr>,
      recording_Observer\<lparr>isUnsubscribed := True\<rparr>]"
    by (simp add: next_eq complete_eq unsubscribe_eq probe_defs)
  then have a: "Suc (Suc 0) \<le> Suc (Suc (Suc 0))
   \<and> Suc (Suc (Suc 0)) \<le> length [Next (1 :: int), Complete, Unsubscribe :: (int, string) operation]
   \<and> isUnsubscribed (history [Next 1, Complete, Unsubscribe] recording_Observer blank ! Suc (Suc 0))"
    by simp
  with t have "isUnsubscribed (history [Next 1, Complete, Unsubscribe] recording_Observer blank ! Suc (Suc (Suc 0)))"
    by blast
  with h a show ?thesis by simp
qed

text \<open>
  Claim C3. Take any sequence of calls on an Observer in which a terminal call \<open>x\<close>
  (\<^verbatim>\<open>error\<close>, \<^verbatim>\<open>complete\<close> or \<^verbatim>\<open>unsubscribe\<close>) has been made. A signal \<open>y\<close>
  (\<^verbatim>\<open>next\<close>, \<^verbatim>\<open>error\<close> or \<^verbatim>\<open>complete\<close>) sent at any later point, whatever calls
  are made in between, returns with the Observer and the environment unchanged: it calls
  no handler and no teardown action. Hence the whole sequence has the same result with
  the call \<open>y\<close> as without it.
\<close>

theorem post_terminal_silence:
  "is_terminal x \<and> is_signal y \<longrightarrow>
     (\<forall>this1 w1. perform_all (before @ x # between) this w = Inr (this1, w1) \<longrightarrow>
        (\<forall>w2. perform y this1 w2 = Inr (this1, w2)))
     \<and> perform_all (before @ x # between @ y # after) this w =
         perform_all (before @ x # between @ after) this w"
proof (intro conjI allI impI)
  fix this1 w1 w2
  assume a: "is_terminal x \<and> is_signal y"
    and p: "perform_all (before @ x # between) this w = Inr (this1, w1)"
  from a p have "isUnsubscribed this1" using after_terminal by blast
  with a show "perform y this1 w2 = Inr (this1, w2)" by (simp add: signal_silent)
next
  assume "is_terminal x \<and> is_signal y"
  then show "perform_all (before @ x # between @ y # after) this w =
         perform_all (before @ x # between @ after) this w"
    by (simp add: drop_silent_call)
qed

text \<open>
  The recording Observer: after \<^verbatim>\<open>next(1)\<close>, \<^verbatim>\<open>complete()\<close>, \<^verbatim>\<open>unsubscribe()\<close>,
  the call \<^verbatim>\<open>next(5)\<close> records nothing.
\<close>

theorem post_terminal_silence_witness:
  "is_terminal (Complete :: (int, string) operation)
   \<and> is_signal (Next 5 :: (int, string) operation)
   \<and> perform_all ([Next 1] @ Complete # [Unsubscribe]) recording_Observer blank =
       Inr (recording_Observer\<lparr>isUnsubscribed := True\<rparr>,
            \<lparr>console = [], calls = [NextCall 1, CompleteCall, TeardownCall, TeardownCall]\<rparr>)
   \<and> perform (Next 5) (recording_Observer\<lparr>isUnsubscribed := True\<rparr>) blank =
       Inr (recording_Observer\<lparr>isUnsubscribed := True\<rparr>, blank)
   \<and> perform_all ([Next 1] @ Complete # [Unsubscribe] @ Next 5 # [Error ''e''])
        recording_Observer blank =
       perform_all ([Next 1] @ Complete # [Unsubscribe] @ [Error ''e'']) recording_Observer blank"
proof -
  note t = post_terminal_silence [of Complete "Next 5" "[Next 1]" "[Unsubscribe]" recording_Observer blank
      "[Error ''e'']"]
  have a: "is_terminal (Complete :: (int, string) operation)
      \<and> is_signal (Next 5 :: (int, string) operation)"
    by simp
  have p: "perform_all ([Next 1] @ Complete # [Unsubscribe]) recording_Observer blank =
       Inr (recording_Observer\<lparr>isUnsubscribed := True\<rparr>,
            \<lparr>console = [], calls = [NextCall 1, CompleteCall, TeardownCall, TeardownCall]\<rparr>)"
    by (simp add: next_eq complete_eq unsubscribe_eq) (simp add: probe_defs)
  from t a p have "perform (Next 5) (recording_Observer\<lparr>isUnsubscribed := True\<rparr>) blank =
       Inr (recording_Observer\<lparr>isUnsubscribed := True\<rparr>, blank)"
    by blast
  moreover from t a have "perform_all ([Next 1] @ Complete # [Unsubscribe] @ Next 5 # [Error ''e''])
        recording_Observer blank =
       perform_all ([Next 1] @ Complete # [Unsubscribe] @ [Error ''e'']) recording_Observer blank"
    by blast
  ultimately show ?thesis using a p by blast
qed

text \<open>
  Claim C4. When \<^verbatim>\<open>error(err)\<close> is called and \<^verbatim>\<open>complete()\<close> is called later, the
  \<^verbatim>\<open>complete()\<close> is a no-op: the sequence has the same result without it. The same
  holds with the two the other way round. On an Observer that is not unsubscribed the
  first call's handler runs (if there is one), then the teardown action (if registered),
  and the second call's handler does not run.
\<close>

theorem terminal_signals_exclusive:
  "perform_all (Error err # between @ Complete # after) this w =
     perform_all (Error err # between @ after) this w
   \<and> perform_all (Complete # between @ Error err # after) this w =
       perform_all (Complete # between @ after) this w
   \<and> (\<not> isUnsubscribed this \<longrightarrow>
        perform_all [Error err, Complete] this w =
          Inr (this\<lparr>isUnsubscribed := True\<rparr>,
               effect0 (field_unsubscribe this) (effect1 (error (handlers this)) err w))
        \<and> perform_all [Complete, Error err] this w =
          Inr (this\<lparr>isUnsubscribed := True\<rparr>,
               effect0 (field_unsubscribe this) (effect0 (complete (handlers this)) w)))"
proof (intro conjI impI)
  show "perform_all (Error err # between @ Complete # after) this w =
     perform_all (Error err # between @ after) this w"
    using drop_silent_call [of "Error err" Complete "[]" between after this w] by simp
  show "perform_all (Complete # between @ Error err # after) this w =
       perform_all (Complete # between @ after) this w"
    using drop_silent_call [of Complete "Error err" "[]" between after this w] by simp
next
  assume "\<not> isUnsubscribed this"
  then show "perform_all [Error err, Complete] this w =
          Inr (this\<lparr>isUnsubscribed := True\<rparr>,
               effect0 (field_unsubscribe this) (effect1 (error (handlers this)) err w))"
    by (simp add: error_eq complete_eq)
next
  assume "\<not> isUnsubscribed this"
  then show "perform_all [Complete, Error err] this w =
          Inr (this\<lparr>isUnsubscribed := True\<rparr>,
               effect0 (field_unsubscribe this) (effect0 (complete (handlers this)) w))"
    by (simp add: error_eq complete_eq)
qed

text \<open>
  The recording Observer: \<^verbatim>\<open>error("x")\<close> then \<^verbatim>\<open>complete()\<close> records the error
  handler only, and \<^verbatim>\<open>complete()\<close> then \<^verbatim>\<open>error("x")\<close> the complete handler only.
\<close>

theorem terminal_signals_exclusive_witness:
  "\<not> isUnsubscribed recording_Observer
   \<and> perform_all [Error ''x'', Complete] recording_Observer blank =
       Inr (recording_Observer\<lparr>isUnsubscribed := True\<rparr>,
            \<lparr>console = [], calls = [ErrorCall ''x'', TeardownCall]\<rparr>)
   \<and> perform_all [Complete, Error ''x''] recording_Observer blank =
       Inr (recording_Observer\<lparr>isUnsubscribed := True\<rparr>,
            \<lparr>console = [], calls = [CompleteCall, TeardownCall]\<rparr>)"
proof -
  have a: "\<not> isUnsubscribed recording_Observer" by (simp add: recording_Observer_def)
  with terminal_signals_exclusive [of "''x''" "[]" "[]" recording_Observer blank]
  have "perform_all [Error ''x'', Complete] recording_Observer blank =
          Inr (recording_Observer\<lparr>isUnsubscribed := True\<rparr>,
               effect0 (field_unsubscribe recording_Observer)
                 (effect1 (error (handlers recording_Observer)) ''x'' blank))
        \<and> perform_all [Complete, Error ''x''] recording_Observer blank =
          Inr (recording_Observer\<lparr>isUnsubscribed := True\<rparr>,
               effect0 (field_unsubscribe recording_Observer)
                 (effect0 (complete (handlers recording_Observer)) blank))"
    by blast
  moreover have "effect0 (field_unsubscribe recording_Observer)
                 (effect1 (error (handlers recording_Observer)) ''x'' blank) =
      \<lparr>console = [], calls = [ErrorCall ''x'', TeardownCall]\<rparr>"
    by (simp add: probe_defs)
  moreover have "effect0 (field_unsubscribe recording_Observer)
                 (effect0 (complete (handlers recording_Observer)) blank) =
      \<lparr>console = [], calls = [CompleteCall, TeardownCall]\<rparr>"
    by (simp add: probe_defs)
  ultimately show ?thesis using a by simp
qed

section \<open>Missing handlers (claim C6)\<close>

text \<open>
  Claim C6. Subscribing with the empty handler set to an Observable whose producer makes
  any sequence of calls on its Observer, and returns any teardown action or none,
  returns a handle: nothing is raised. The environment is as before, so every signal was
  dropped, and the Observer is unsubscribed exactly if the producer made a terminal
  call. The same holds for \<^verbatim>\<open>Observable.from\<close>, whose producer ends with
  \<^verbatim>\<open>complete()\<close>. For a single Observer: \<^verbatim>\<open>next\<close> without a next handler changes
  nothing, and \<^verbatim>\<open>error\<close> and \<^verbatim>\<open>complete\<close> without their handler still unsubscribe
  an Observer that was not unsubscribed.
\<close>

theorem missing_handlers_tolerated:
  "(\<exists>s1. Observable_subscribe (new_Observable (emitting ops td)) no_handlers s = Inr (fresh s, s1)
         \<and> env s1 = env s
         \<and> isUnsubscribed (heap s1 (fresh s)) = list_ex is_terminal ops)
   \<and> (\<exists>s1. Observable_subscribe (from_with msg vs) no_handlers s = Inr (fresh s, s1)
         \<and> env s1 = env s
         \<and> isUnsubscribed (heap s1 (fresh s)))
   \<and> (next (handlers this) = None \<longrightarrow> Observer_next v this w = Inr (this, w))
   \<and> (error (handlers this) = None \<and> \<not> isUnsubscribed this \<longrightarrow>
         Observer_error err this w =
           Inr (this\<lparr>isUnsubscribed := True\<rparr>, effect0 (field_unsubscribe this) w))
   \<and> (complete (handlers this) = None \<and> \<not> isUnsubscribed this \<longrightarrow>
         Observer_complete this w =
           Inr (this\<lparr>isUnsubscribed := True\<rparr>, effect0 (field_unsubscribe this) w))"
proof (intro conjI impI)
  have "perform_all ops (new_Observer no_handlers) (env s) =
      Inr ((new_Observer no_handlers)\<lparr>isUnsubscribed := list_ex is_terminal ops\<rparr>, env s)"
    using no_handlers_silent [of "new_Observer no_handlers" ops "env s"]
    by (simp add: new_Observer_def)
  from subscribe_emitting [OF this, of td]
  show "\<exists>s1. Observable_subscribe (new_Observable (emitting ops td)) no_handlers s = Inr (fresh s, s1)
         \<and> env s1 = env s
         \<and> isUnsubscribed (heap s1 (fresh s)) = list_ex is_terminal ops"
    by simp
  show "\<exists>s1. Observable_subscribe (from_with msg vs) no_handlers s = Inr (fresh s, s1)
         \<and> env s1 = env s
         \<and> isUnsubscribed (heap s1 (fresh s))"
    by (simp add: subscribe_from) (simp add: no_handlers_def fold_effect1_None)
next
  assume "next (handlers this) = None"
  then show "Observer_next v this w = Inr (this, w)" by (simp add: next_eq)
next
  assume "error (handlers this) = None \<and> \<not> isUnsubscribed this"
  then show "Observer_error err this w =
           Inr (this\<lparr>isUnsubscribed := True\<rparr>, effect0 (field_unsubscribe this) w)"
    by (simp add: error_eq)
next
  assume "complete (handlers this) = None \<and> \<not> isUnsubscribed this"
  then show "Observer_complete this w =
           Inr (this\<lparr>isUnsubscribed := True\<rparr>, effect0 (field_unsubscribe this) w)"
    by (simp add: complete_eq)
qed

text \<open>
  A new Observer without handlers: \<^verbatim>\<open>next(1)\<close> changes nothing, and \<^verbatim>\<open>error("x")\<close>
  and \<^verbatim>\<open>complete()\<close> set \<open>isUnsubscribed\<close> and change nothing else.
\<close>

theorem missing_handlers_tolerated_witness:
  "next (handlers (new_Observer no_handlers :: (int, string, probe) Observer)) = None
   \<and> Observer_next 1 (new_Observer no_handlers :: (int, string, probe) Observer) blank =
       Inr (new_Observer no_handlers, blank)
   \<and> error (handlers (new_Observer no_handlers :: (int, string, probe) Observer)) = None
   \<and> complete (handlers (new_Observer no_handlers :: (int, string, probe) Observer)) = None
   \<and> \<not> isUnsubscribed (new_Observer no_handlers :: (int, string, probe) Observer)
   \<and> Observer_error ''x'' (new_Observer no_handlers :: (int, string, probe) Observer) blank =
       Inr ((new_Observer no_handlers)\<lparr>isUnsubscribed := True\<rparr>, blank)
   \<and> Observer_complete (new_Observer no_handlers :: (int, string, probe) Observer) blank =
       Inr ((new_Observer no_handlers)\<lparr>isUnsubscribed := True\<rparr>, blank)"
proof -
  let ?N = "new_Observer no_handlers :: (int, string, probe) Observer"
  have h: "next (handlers ?N) = None" "error (handlers ?N) = None"
    "complete (handlers ?N) = None" "\<not> isUnsubscribed ?N"
    by (simp_all add: new_Observer_def no_handlers_def)
  have t: "field_unsubscribe ?N = None" by (simp add: new_Observer_def)
  note c = missing_handlers_tolerated [where this = ?N and w = blank and v = 1 and err = "''x''"]
  from c h(1) have "Observer_next 1 ?N blank = Inr (?N, blank)" by blast
  moreover from c h(2,4)
  have "Observer_error ''x'' ?N blank =
      Inr (?N\<lparr>isUnsubscribed := True\<rparr>, effect0 (field_unsubscribe ?N) blank)"
    by blast
  moreover from c h(3,4)
  have "Observer_complete ?N blank =
      Inr (?N\<lparr>isUnsubscribed := True\<rparr>, effect0 (field_unsubscribe ?N) blank)"
    by blast
  ultimately show ?thesis using h t by simp
qed

section \<open>Repeated unsubscribe (claim C1)\<close>

text \<open>
  Claim C1 says that \<open>N\<close> calls of \<^verbatim>\<open>unsubscribe()\<close> on a handle invoke the
  registered teardown action at most once. \<^verbatim>\<open>Observer.unsubscribe\<close> calls
  \<^verbatim>\<open>_unsubscribe\<close> whenever it is set, without looking at \<open>isUnsubscribed\<close>. After
  \<^verbatim>\<open>Observable.from([1]).subscribe(...)\<close>, two calls of \<^verbatim>\<open>unsubscribe()\<close> on the
  handle write the teardown action's line to the console twice.
\<close>

theorem unsubscribe_twice_runs_teardown_twice:
  "subscribe_then_unsubscribe (Observable_from [1 :: int])
       (recorder id :: (int, string, ((int, string) invocation, unit) recording_ext) Handler)
       2 \<lparr>console = [], calls = []\<rparr>
   = Inr \<lparr>console = [''unsubscribed'', ''unsubscribed''],
          calls = [NextCall 1, CompleteCall]\<rparr>"
  by (simp add: Observable_from_def subscribe_from_then_unsubscribe recorder_def record_call_def
        numeral_2_eq_2)

text \<open>
  Claim C1, amended. For every subscription and every \<open>N \<ge> 1\<close> (here \<open>N = Suc n\<close>),
  \<open>N\<close> calls of \<^verbatim>\<open>unsubscribe()\<close> on the handle never raise, leave
  \<open>isUnsubscribed\<close> set, and invoke the registered teardown action once per call,
  \<open>N\<close> times in all (and change nothing else when none is registered).
\<close>

theorem unsubscribe_runs_teardown_each_time:
  "unsubscribe_times (Suc n) observer s =
     Inr (s\<lparr>heap := (heap s)(observer := (heap s observer)\<lparr>isUnsubscribed := True\<rparr>),
            env := (effect0 (field_unsubscribe (heap s observer)) ^^ Suc n) (env s)\<rparr>)"
  by (rule unsubscribe_times_eq)

section \<open>Observable.from (claims C5, C10, C2)\<close>

text \<open>
  Claim C5. Subscribing to \<^verbatim>\<open>Observable.from(vs)\<close> with a next handler \<open>hn\<close> and a
  complete handler \<open>hc\<close> (and any error handler or none) returns a handle, and the
  environment is the one that results from \<open>hn\<close> on each element of \<open>vs\<close> in list
  order and then \<open>hc\<close> once: nothing else was called. With recording handlers, the
  calls recorded are those of next with the elements in order, then one of complete, and
  none of error; the console has not been written to, so the teardown action has not run.
\<close>

theorem from_emits_in_order_then_completes:
  "(\<exists>s1. Observable_subscribe (from_with msg vs)
            \<lparr>next = Some hn, error = eh, complete = Some hc\<rparr> s = Inr (fresh s, s1)
         \<and> env s1 = hc (fold hn vs (env s)))
   \<and> (\<exists>r1. Observable_subscribe (from_with msg vs) ((recorder tag)\<lparr>error := eh'\<rparr>) r
              = Inr (fresh r, r1)
         \<and> calls (env r1) = calls (env r) @ map (\<lambda>v. tag (NextCall v)) vs @ [tag CompleteCall]
         \<and> console (env r1) = console (env r))"
  by (simp add: subscribe_from recorder_def fold_record_call effect1_Some)
     (simp add: record_call_def)

text \<open>
  Claim C10. In \<^verbatim>\<open>subscribe\<close> on \<^verbatim>\<open>Observable.from(vs)\<close>, the producer is run on the
  new Observer and returns the teardown action with the Observer unsubscribed (its
  \<^verbatim>\<open>complete()\<close> has run) and \<^verbatim>\<open>_unsubscribe\<close> still unset; the environment it
  leaves is the result of the handlers alone, so no teardown action has run. After
  \<^verbatim>\<open>subscribe\<close> has returned, the environment is still that one, and the teardown
  action is registered on the unsubscribed Observer. No later signal runs it, and a call
  of \<^verbatim>\<open>unsubscribe()\<close> on the handle does.
\<close>

theorem from_completes_before_teardown_is_registered:
  "\<exists>s1 s2 s3.
      field_subscribe (from_with msg vs) (fresh s) (snd (allocate (new_Observer hs) s))
        = Inr (Some (console_log msg), s2)
    \<and> isUnsubscribed (heap s2 (fresh s))
    \<and> field_unsubscribe (heap s2 (fresh s)) = None
    \<and> env s2 = effect0 (complete hs) (fold (effect1 (next hs)) vs (env s))
    \<and> Observable_subscribe (from_with msg vs) hs s = Inr (fresh s, s1)
    \<and> env s1 = env s2
    \<and> heap s1 (fresh s) =
        \<lparr>handlers = hs, isUnsubscribed = True, field_unsubscribe = Some (console_log msg)\<rparr>
    \<and> (\<forall>xs. list_all is_signal xs \<longrightarrow> invoke (fresh s) (perform_all xs) s1 = Inr s1)
    \<and> handle_unsubscribe (fresh s) s1 = Inr s3
    \<and> env s3 = console_log msg (env s1)
    \<and> heap s3 = heap s1"
proof -
  let ?w = "effect0 (complete hs) (fold (effect1 (next hs)) vs (env s))"
  let ?s0 = "snd (allocate (new_Observer hs) s)"
  let ?s1 = "\<lparr>heap = (heap s)(fresh s :=
                    \<lparr>handlers = hs, isUnsubscribed = True,
                     field_unsubscribe = Some (console_log msg)\<rparr>),
           fresh = Suc (fresh s), env = ?w\<rparr>"
  have "perform_all (map Next vs @ [Complete]) (heap ?s0 (fresh s)) (env ?s0) =
      Inr ((new_Observer hs)\<lparr>isUnsubscribed := True\<rparr>, ?w)"
    using nexts_then_complete [of "new_Observer hs" vs "env s"]
    by (simp add: new_Observer_def allocate_def)
  from producer_emitting [OF this, of "Some (console_log msg)"]
  have producer: "field_subscribe (from_with msg vs) (fresh s) ?s0 =
      Inr (Some (console_log msg),
           ?s0\<lparr>heap := (heap ?s0)(fresh s := (new_Observer hs)\<lparr>isUnsubscribed := True\<rparr>),
                env := ?w\<rparr>)"
    by (simp add: from_with_emitting)
  have sub: "Observable_subscribe (from_with msg vs) hs s = Inr (fresh s, ?s1)"
    by (rule subscribe_from)
  have silent: "\<forall>xs. list_all is_signal xs \<longrightarrow> invoke (fresh s) (perform_all xs) ?s1 = Inr ?s1"
    by (simp add: invoke_signals_silent)
  have unsub: "handle_unsubscribe (fresh s) ?s1 =
      Inr (?s1\<lparr>heap := (heap ?s1)(fresh s := (heap ?s1 (fresh s))\<lparr>isUnsubscribed := True\<rparr>),
               env := effect0 (field_unsubscribe (heap ?s1 (fresh s))) (env ?s1)\<rparr>)"
    by (rule handle_unsubscribe_eq)
  show ?thesis
    apply (rule exI [of _ ?s1])
    apply (intro exI conjI)
              apply (rule producer)
             apply (simp add: new_Observer_def allocate_def)
            apply (simp add: new_Observer_def allocate_def)
           apply (simp add: allocate_def)
          apply (rule sub)
         apply (simp add: allocate_def)
        apply simp
       apply (rule silent)
      apply (rule unsub)
     apply simp
    apply (simp add: fun_eq_iff)
    done
qed

text \<open>
  \<^verbatim>\<open>Observable.from([1, 2])\<close> with recording handlers: after \<^verbatim>\<open>subscribe\<close> the console
  is empty; signals sent later change nothing; \<^verbatim>\<open>unsubscribe()\<close> on the handle writes
  the teardown action's line.
\<close>

theorem from_completes_before_teardown_is_registered_witness:
  "\<exists>s1 s3.
      Observable_subscribe (Observable_from [1, 2])
        (recorder id :: (int, string, probe) Handler) (initial blank) = Inr (0, s1)
    \<and> env s1 = \<lparr>console = [], calls = [NextCall 1, NextCall 2, CompleteCall]\<rparr>
    \<and> list_all is_signal [Next (3 :: int), Complete :: (int, string) operation]
    \<and> invoke 0 (perform_all [Next 3, Complete]) s1 = Inr s1
    \<and> handle_unsubscribe 0 s1 = Inr s3
    \<and> env s3 = \<lparr>console = [''unsubscribed''],
                  calls = [NextCall 1, NextCall 2, CompleteCall]\<rparr>"
proof -
  let ?s = "initial blank :: (int, string, probe) state"
  let ?h = "recorder id :: (int, string, probe) Handler"
  have z: "fresh ?s = 0" by (simp add: initial_def)
  from from_completes_before_teardown_is_registered [where msg = "''unsubscribed''" and vs = "[1, 2]" and hs = ?h and s = ?s]
  obtain s1 and s2 :: "(int, string, probe) state" and s3
    where a: "Observable_subscribe (from_with ''unsubscribed'' [1, 2]) ?h ?s = Inr (fresh ?s, s1)"
      and b: "env s1 = env s2"
      and c: "env s2 = effect0 (complete ?h) (fold (effect1 (next ?h)) [1, 2] (env ?s))"
      and d: "\<forall>xs. list_all is_signal xs \<longrightarrow> invoke (fresh ?s) (perform_all xs) s1 = Inr s1"
      and e: "handle_unsubscribe (fresh ?s) s1 = Inr s3"
      and f: "env s3 = console_log ''unsubscribed'' (env s1)"
    by blast
  have g: "list_all is_signal [Next (3 :: int), Complete :: (int, string) operation]" by simp
  with d have d': "invoke (fresh ?s) (perform_all [Next 3, Complete]) s1 = Inr s1" by blast
  from b c have h: "env s1 = \<lparr>console = [], calls = [NextCall 1, NextCall 2, CompleteCall]\<rparr>"
    by (simp add: initial_def probe_defs)
  with f have i: "env s3 = \<lparr>console = [''unsubscribed''],
                  calls = [NextCall 1, NextCall 2, CompleteCall]\<rparr>"
    by (simp add: console_log_def)
  from a d' e g h i z show ?thesis
    by (auto simp: Observable_from_def)
qed

text \<open>
  Claim C2 says that for \<^verbatim>\<open>Observable.from([1,2,3])\<close> subscribed with
  \<^verbatim>\<open>{next: collect, complete: markDone}\<close> the teardown action returned by the producer
  is invoked exactly once, after the complete signal. \<^verbatim>\<open>subscribe\<close> assigns
  \<^verbatim>\<open>_unsubscribe\<close> after the producer has returned, so the \<^verbatim>\<open>unsubscribe()\<close> made by
  \<^verbatim>\<open>complete()\<close> finds no teardown action: when \<^verbatim>\<open>subscribe\<close> has returned, the
  handlers have been called and the console is empty.
\<close>

theorem scenario_A_subscribe_runs_no_teardown:
  "subscribe_then_unsubscribe (Observable_from [1, 2, 3 :: int])
       ((recorder id :: (int, string, ((int, string) invocation, unit) recording_ext) Handler)
          \<lparr>error := None\<rparr>)
       0 \<lparr>console = [], calls = []\<rparr>
   = Inr \<lparr>console = [], calls = [NextCall 1, NextCall 2, NextCall 3, CompleteCall]\<rparr>"
  by (simp add: Observable_from_def subscribe_from_then_unsubscribe recorder_def record_call_def)

text \<open>
  Claim C2, amended. For \<^verbatim>\<open>Observable.from([1,2,3])\<close> subscribed with
  \<^verbatim>\<open>{next: collect, complete: markDone}\<close>, \<open>collect\<close> is called with 1, then 2, then
  3, and \<open>markDone\<close> is called exactly once. The \<^verbatim>\<open>subscribe\<close> call does not invoke
  the teardown action returned by the producer; each of the \<open>n\<close> later calls of
  \<^verbatim>\<open>unsubscribe()\<close> on the returned handle invokes it once, after the complete signal.
\<close>

theorem scenario_A_teardown_only_on_unsubscribe:
  "subscribe_then_unsubscribe (from_with msg [1, 2, 3 :: int])
       ((recorder id :: (int, 'e, ((int, 'e) invocation, unit) recording_ext) Handler)
          \<lparr>error := None\<rparr>)
       n \<lparr>console = [], calls = []\<rparr>
   = Inr \<lparr>console = replicate n msg,
          calls = [NextCall 1, NextCall 2, NextCall 3, CompleteCall]\<rparr>"
  by (simp add: subscribe_from_then_unsubscribe recorder_def record_call_def)

section \<open>Independence of subscriptions (claim C7)\<close>

text \<open>
  Claim C7. Let an Observable have a producer that makes the calls \<open>ops\<close> on its
  Observer and returns the teardown action \<open>td\<close> (or none), where \<open>td\<close> does not
  touch the record of handler calls. Two \<^verbatim>\<open>subscribe\<close> calls on it, with recording
  handlers tagged \<open>k1\<close> and \<open>k2\<close>, return handles to two different Observers, and each
  subscriber is delivered the same calls, those the specification's state machine gives
  for \<open>ops\<close> from the Active state. For either subscription \<open>b\<close> and the other one
  \<open>a\<close>: whatever calls \<open>xs\<close> and then \<open>ys\<close> are made later on the Observer of
  \<open>b\<close>, a call of \<^verbatim>\<open>unsubscribe()\<close> on the handle of \<open>a\<close> between them changes
  neither the handler calls recorded nor the Observer of \<open>b\<close>.
\<close>

theorem subscriptions_independent:
  assumes "\<forall>f w. td = Some f \<longrightarrow> calls (f w) = calls w"
  shows "\<exists>s1 s2.
      Observable_subscribe (new_Observable (emitting ops td)) (recorder (Pair k1)) s
        = Inr (fresh s, s1)
    \<and> Observable_subscribe (new_Observable (emitting ops td)) (recorder (Pair k2)) s1
        = Inr (Suc (fresh s), s2)
    \<and> calls (env s1) = calls (env s) @ map (Pair k1) (spec_deliveries False ops)
    \<and> calls (env s2) = calls (env s1) @ map (Pair k2) (spec_deliveries False ops)
    \<and> (\<forall>a b. a = fresh s \<and> b = Suc (fresh s) \<or> a = Suc (fresh s) \<and> b = fresh s \<longrightarrow>
          (\<exists>tA t3 t4 tB.
              invoke b (perform_all (xs @ ys)) s2 = Inr tA
            \<and> invoke b (perform_all xs) s2 = Inr t3
            \<and> handle_unsubscribe a t3 = Inr t4
            \<and> invoke b (perform_all ys) t4 = Inr tB
            \<and> calls (env tB) = calls (env tA)
            \<and> heap tB b = heap tA b
            \<and> calls (env tA) =
                calls (env s2)
                @ map (Pair (if b = fresh s then k1 else k2))
                    (spec_deliveries (list_ex is_terminal ops) (xs @ ys))))"
proof -
  let ?obs = "new_Observable (emitting ops td)"
  from subscribe_recorder [of ops td "Pair k1" s] obtain w1
    where sub1: "Observable_subscribe ?obs (recorder (Pair k1)) s =
           Inr (fresh s,
                \<lparr>heap = (heap s)(fresh s :=
                          \<lparr>handlers = recorder (Pair k1),
                           isUnsubscribed = list_ex is_terminal ops,
                           field_unsubscribe = td\<rparr>),
                 fresh = Suc (fresh s), env = w1\<rparr>)"
      and c1: "calls w1 = calls (env s) @ map (Pair k1) (spec_deliveries False ops)"
    by blast
  let ?s1 = "\<lparr>heap = (heap s)(fresh s :=
                          \<lparr>handlers = recorder (Pair k1),
                           isUnsubscribed = list_ex is_terminal ops,
                           field_unsubscribe = td\<rparr>),
                 fresh = Suc (fresh s), env = w1\<rparr>"
  from subscribe_recorder [of ops td "Pair k2" ?s1] obtain w2
    where sub2: "Observable_subscribe ?obs (recorder (Pair k2)) ?s1 =
           Inr (fresh ?s1,
                \<lparr>heap = (heap ?s1)(fresh ?s1 :=
                          \<lparr>handlers = recorder (Pair k2),
                           isUnsubscribed = list_ex is_terminal ops,
                           field_unsubscribe = td\<rparr>),
                 fresh = Suc (fresh ?s1), env = w2\<rparr>)"
      and c2: "calls w2 = calls (env ?s1) @ map (Pair k2) (spec_deliveries False ops)"
    by blast
  let ?s2 = "\<lparr>heap = (heap ?s1)(fresh ?s1 :=
                          \<lparr>handlers = recorder (Pair k2),
                           isUnsubscribed = list_ex is_terminal ops,
                           field_unsubscribe = td\<rparr>),
                 fresh = Suc (fresh ?s1), env = w2\<rparr>"
  have first: "heap ?s2 (fresh s) =
      \<lparr>handlers = recorder (Pair k1), isUnsubscribed = list_ex is_terminal ops,
       field_unsubscribe = td\<rparr>"
    by simp
  have second: "heap ?s2 (Suc (fresh s)) =
      \<lparr>handlers = recorder (Pair k2), isUnsubscribed = list_ex is_terminal ops,
       field_unsubscribe = td\<rparr>"
    by simp
  have later: "\<exists>tA t3 t4 tB.
              invoke b (perform_all (xs @ ys)) ?s2 = Inr tA
            \<and> invoke b (perform_all xs) ?s2 = Inr t3
            \<and> handle_unsubscribe a t3 = Inr t4
            \<and> invoke b (perform_all ys) t4 = Inr tB
            \<and> calls (env tB) = calls (env tA)
            \<and> heap tB b = heap tA b
            \<and> calls (env tA) =
                calls (env ?s2)
                @ map (Pair (if b = fresh s then k1 else k2))
                    (spec_deliveries (list_ex is_terminal ops) (xs @ ys))"
    if ab: "a = fresh s \<and> b = Suc (fresh s) \<or> a = Suc (fresh s) \<and> b = fresh s" for a b
  proof -
    from ab have ne: "a \<noteq> b" by auto
    from ab first second
    have ka: "\<forall>f w. field_unsubscribe (heap ?s2 a) = Some f \<longrightarrow> calls (f w) = calls w"
      and kb: "\<forall>f w. field_unsubscribe (heap ?s2 b) = Some f \<longrightarrow> calls (f w) = calls w"
      using assms by auto
    from ab first second
    have hb: "handlers (heap ?s2 b) = recorder (Pair (if b = fresh s then k1 else k2))"
      by auto
    from ab first second
    have ub: "isUnsubscribed (heap ?s2 b) = list_ex is_terminal ops"
      by auto
    from unsubscribe_other [OF ne hb kb ka, of xs ys] ub show ?thesis
      by simp
  qed
  have A: "Observable_subscribe ?obs (recorder (Pair k1)) s = Inr (fresh s, ?s1)"
    by (rule sub1)
  have B: "Observable_subscribe ?obs (recorder (Pair k2)) ?s1 = Inr (Suc (fresh s), ?s2)"
    using sub2 by simp
  have C: "calls (env ?s1) = calls (env s) @ map (Pair k1) (spec_deliveries False ops)"
    using c1 by simp
  have D: "calls (env ?s2) = calls (env ?s1) @ map (Pair k2) (spec_deliveries False ops)"
    using c2 by simp
  have E: "\<forall>a b. a = fresh s \<and> b = Suc (fresh s) \<or> a = Suc (fresh s) \<and> b = fresh s \<longrightarrow>
          (\<exists>tA t3 t4 tB.
              invoke b (perform_all (xs @ ys)) ?s2 = Inr tA
            \<and> invoke b (perform_all xs) ?s2 = Inr t3
            \<and> handle_unsubscribe a t3 = Inr t4
            \<and> invoke b (perform_all ys) t4 = Inr tB
            \<and> calls (env tB) = calls (env tA)
            \<and> heap tB b = heap tA b
            \<and> calls (env tA) =
                calls (env ?s2)
                @ map (Pair (if b = fresh s then k1 else k2))
                    (spec_deliveries (list_ex is_terminal ops) (xs @ ys)))"
    by (intro allI impI) (rule later)
  show ?thesis
    by (rule exI [of _ ?s1], rule exI [of _ ?s2]) (intro conjI A B C D E)
qed

text \<open>
  A producer that calls \<^verbatim>\<open>next(1)\<close> and returns a teardown action that writes to the
  console: both subscribers are delivered \<^verbatim>\<open>next(1)\<close>, and \<^verbatim>\<open>unsubscribe()\<close> on the
  first handle between later signals to the second Observer changes nothing of what the
  second subscriber is delivered.
\<close>

theorem subscriptions_independent_witness:
  "(\<forall>w :: (nat \<times> (int, string) invocation) recording.
      calls (console_log ''bye'' w) = calls w)
   \<and> (\<exists>s1 s2.
        Observable_subscribe (new_Observable (emitting [Next 1] (Some (console_log ''bye''))))
          (recorder (Pair 1)) (initial \<lparr>console = [], calls = []\<rparr>) = Inr (0, s1)
      \<and> Observable_subscribe (new_Observable (emitting [Next 1] (Some (console_log ''bye''))))
          (recorder (Pair 2)) s1 = Inr (Suc 0, s2)
      \<and> calls (env s2) = [(1 :: nat, NextCall (1 :: int) :: (int, string) invocation),
                          (2, NextCall 1)]
      \<and> (\<exists>tA t3 t4 tB.
            invoke (Suc 0) (perform_all ([Next 2] @ [Next 3, Complete])) s2 = Inr tA
          \<and> invoke (Suc 0) (perform_all [Next 2]) s2 = Inr t3
          \<and> handle_unsubscribe 0 t3 = Inr t4
          \<and> invoke (Suc 0) (perform_all [Next 3, Complete]) t4 = Inr tB
          \<and> calls (env tB) = calls (env tA)
          \<and> calls (env tA) =
              [(1, NextCall 1), (2, NextCall 1), (2, NextCall 2), (2, NextCall 3),
               (2, CompleteCall)]))"
proof -
  let ?td = "Some (console_log ''bye'') :: (nat \<times> (int, string) invocation, unit) recording_ext action option"
  let ?s = "initial \<lparr>console = [], calls = []\<rparr>
      :: (int, string, (nat \<times> (int, string) invocation, unit) recording_ext) state"
  have k: "\<forall>f (w :: (nat \<times> (int, string) invocation) recording).
      ?td = Some f \<longrightarrow> calls (f w) = calls w"
    by (auto simp: console_log_def)
  have z: "fresh ?s = 0" "calls (env ?s) = []" by (simp_all add: initial_def)
  from subscriptions_independent [OF k, where ops = "[Next 1]" and ?k1.0 = 1 and ?k2.0 = 2 and s = ?s
      and xs = "[Next 2]" and ys = "[Next 3, Complete]"]
  obtain s1 s2
    where a: "Observable_subscribe (new_Observable (emitting [Next 1] ?td))
          (recorder (Pair 1)) ?s = Inr (fresh ?s, s1)"
      and b: "Observable_subscribe (new_Observable (emitting [Next 1] ?td))
          (recorder (Pair 2)) s1 = Inr (Suc (fresh ?s), s2)"
      and c: "calls (env s1) = calls (env ?s) @ map (Pair 1) (spec_deliveries False [Next 1])"
      and d: "calls (env s2) = calls (env s1) @ map (Pair 2) (spec_deliveries False [Next 1])"
      and e: "\<forall>a b. a = fresh ?s \<and> b = Suc (fresh ?s) \<or> a = Suc (fresh ?s) \<and> b = fresh ?s \<longrightarrow>
          (\<exists>tA t3 t4 tB.
              invoke b (perform_all ([Next 2] @ [Next 3, Complete])) s2 = Inr tA
            \<and> invoke b (perform_all [Next 2]) s2 = Inr t3
            \<and> handle_unsubscribe a t3 = Inr t4
            \<and> invoke b (perform_all [Next 3, Complete]) t4 = Inr tB
            \<and> calls (env tB) = calls (env tA)
            \<and> heap tB b = heap tA b
            \<and> calls (env tA) =
                calls (env s2)
                @ map (Pair (if b = fresh ?s then 1 else 2))
                    (spec_deliveries (list_ex is_terminal [Next 1 :: (int, string) operation])
                       ([Next 2] @ [Next 3, Complete])))"
    by blast
  from c d z have d': "calls (env s2) = [(1, NextCall 1), (2, NextCall 1)]" by simp
  from e z obtain tA t3 t4 tB
    where f: "invoke (Suc 0) (perform_all ([Next 2] @ [Next 3, Complete])) s2 = Inr tA"
      "invoke (Suc 0) (perform_all [Next 2]) s2 = Inr t3"
      "handle_unsubscribe 0 t3 = Inr t4"
      "invoke (Suc 0) (perform_all [Next 3, Complete]) t4 = Inr tB"
      "calls (env tB) = calls (env tA)"
      and g: "calls (env tA) =
                calls (env s2)
                @ map (Pair (if Suc 0 = fresh ?s then 1 else 2))
                    (spec_deliveries (list_ex is_terminal [Next 1 :: (int, string) operation])
                       ([Next 2] @ [Next 3, Complete]))"
    by (metis (no_types, lifting))
  from g d' z have g': "calls (env tA) =
              [(1, NextCall 1), (2, NextCall 1), (2, NextCall 2), (2, NextCall 3),
               (2, CompleteCall)]"
    by simp
  have k': "\<forall>w :: (nat \<times> (int, string) invocation) recording.
      calls (console_log ''bye'' w) = calls w"
    by (simp add: console_log_def)
  from a b z d' f g' k' show ?thesis by auto
qed

end
